theory Spec2Isabelle
  imports Main "HOL-Library.Sublist"
begin

section \<open>Python values used by seller.py and market.py\<close>

text \<open>
  Python strings are modelled as \<^typ>\<open>string\<close>: the UTF-8 bytes of the text. The
  operations the two modules apply to strings are comparison for equality, splitting at
  the ASCII period, deleting every character outside the ASCII range \<open>0\<close>..\<open>9\<close>, and
  \<open>int()\<close>. On ASCII text bytes and code points coincide, and a byte of a multi-byte
  UTF-8 sequence is never an ASCII character, so equality, splitting and digit
  filtering give the same result on bytes as on code points. \<open>int()\<close> is modelled on
  ASCII text; that CPython also accepts non-ASCII decimal digits and white space is
  outside the model, where a text with a non-ASCII byte is no integer literal. What is
  stated below about a failure of \<open>int()\<close> is stated of ASCII characters.
\<close>

datatype error = ValueError | HTTPError | ReadTimeout | ConnectionError

definition is_digit :: "char \<Rightarrow> bool" where
  "is_digit c = (48 \<le> (of_char c :: nat) \<and> (of_char c :: nat) \<le> 57)"

text \<open>
  The characters \<open>int()\<close> skips at both ends of an ASCII text: 9..13 and 32. The
  separators 28..31 are not among them: on the character 31 followed by the digit 5,
  \<open>int()\<close> raises ValueError.
\<close>

definition is_space :: "char \<Rightarrow> bool" where
  "is_space c = (let n = (of_char c :: nat) in (9 \<le> n \<and> n \<le> 13) \<or> n = 32)"

definition digit_val :: "char \<Rightarrow> nat" where
  "digit_val c = of_char c - 48"

definition dec :: "string \<Rightarrow> nat" where
  "dec ds = foldl (\<lambda>a c. 10 * a + digit_val c) 0 ds"

definition strip :: "string \<Rightarrow> string" where
  "strip s = rev (dropWhile is_space (rev (dropWhile is_space s)))"

text \<open>
  The body of a base-10 integer literal as \<open>int()\<close> reads it: digits, with single
  underscores allowed between two digits.
\<close>

fun int_body :: "string \<Rightarrow> bool" where
  "int_body [] = False"
| "int_body [c] = is_digit c"
| "int_body (c # d # cs) =
     (is_digit c \<and> (if d = CHR ''_'' then int_body cs else int_body (d # cs)))"

text \<open>
  CPython (3.11 and the security releases of 3.7 to 3.10) refuses to convert a decimal
  text of more than \<open>sys.int_info.default_max_str_digits\<close> digits.
\<close>

definition int_max_str_digits :: nat where
  "int_max_str_digits = 4300"

definition py_int :: "string \<Rightarrow> error + int" where
  "py_int s =
     (let t = strip s;
          (sign, body) = (case t of
                           [] \<Rightarrow> (1, [])
                         | c # r \<Rightarrow> if c = CHR ''-'' then (- 1, r)
                                    else if c = CHR ''+'' then (1, r) else (1, t));
          ds = filter (\<lambda>c. c \<noteq> CHR ''_'') body
      in if int_body body \<and> length ds \<le> int_max_str_digits
         then Inr (sign * int (dec ds)) else Inl ValueError)"

section \<open>The feed and the payloads\<close>

text \<open>
  One row of the spreadsheet (\<open>download_stock\<close>), with the three columns the two
  modules read: the offer code (\<open>kod\<close>), the raw quantity (\<open>kolichestvo\<close>) and the raw
  price (\<open>tsena\<close>), each a string as in the docstring of \<open>download_stock\<close>. The field
  names transliterate the Cyrillic keys of the source.
\<close>

record watch =
  kod :: string
  kolichestvo :: string
  tsena :: string

text \<open>seller.py, \<open>create_stocks\<close>: \<open>{"offer_id": ..., "stock": ...}\<close>.\<close>

record stock_entry =
  offer_id :: string
  stock :: int

text \<open>market.py, \<open>create_stocks\<close>: \<open>{"sku", "warehouseId", "items": [{"count", "type", "updatedAt"}]}\<close>.\<close>

record stock_item =
  item_count :: int
  item_type :: string
  updatedAt :: string

record market_stock =
  sku :: string
  warehouseId :: string
  stock_items :: "stock_item list"

text \<open>seller.py, \<open>create_prices\<close>: the price is the digit string, not a number.\<close>

record ozon_price =
  auto_action_enabled :: string
  currency_code :: string
  price_offer_id :: string
  old_price :: string
  price :: string

text \<open>market.py, \<open>create_prices\<close>: \<open>{"id": ..., "price": {"value": ..., "currencyId": "RUR"}}\<close>.\<close>

record price_obj =
  price_value :: int
  currencyId :: string

record market_price =
  price_id :: string
  price_obj :: price_obj

section \<open>Stock reconciliation\<close>

text \<open>
  The quantity rule of \<open>create_stocks\<close> (seller.py lines 291-297, market.py lines
  329-335): \<open>count == ">10"\<close>, then \<open>count == "1"\<close>, else \<open>int(...)\<close>, which raises
  ValueError on text that is no integer literal.
\<close>

definition normalize_quantity :: "string \<Rightarrow> error + int" where
  "normalize_quantity count =
     (if count = ''>10'' then Inr 100
      else if count = ''1'' then Inr 0
      else py_int count)"

text \<open>
  \<open>create_stocks\<close> mutates the list \<open>offer_ids\<close> of its caller (\<open>offer_ids.remove\<close>
  deletes the first occurrence), so every function below returns, next to its outcome,
  the content of \<open>offer_ids\<close> when the call ends; an exception leaves the list as it
  was when it was raised.

  seller.py lines 288-299: the loop over the feed.
\<close>

fun stocks_loop ::
  "watch list \<Rightarrow> stock_entry list \<Rightarrow> string list \<Rightarrow> (error + stock_entry list) \<times> string list"
where
  "stocks_loop [] stocks offer_ids = (Inr stocks, offer_ids)"
| "stocks_loop (w # ws) stocks offer_ids =
     (if kod w \<in> set offer_ids then
        (case normalize_quantity (kolichestvo w) of
           Inl e \<Rightarrow> (Inl e, offer_ids)
         | Inr n \<Rightarrow>
             stocks_loop ws (stocks @ [\<lparr>offer_id = kod w, stock = n\<rparr>])
               (remove1 (kod w) offer_ids))
      else stocks_loop ws stocks offer_ids)"

text \<open>seller.py lines 261-303.\<close>

definition create_stocks ::
  "watch list \<Rightarrow> string list \<Rightarrow> (error + stock_entry list) \<times> string list"
where
  "create_stocks watch_remnants offer_ids =
     (case stocks_loop watch_remnants [] offer_ids of
        (Inl e, ids) \<Rightarrow> (Inl e, ids)
      | (Inr stocks, ids) \<Rightarrow>
          (Inr (stocks @ map (\<lambda>i. \<lparr>offer_id = i, stock = 0\<rparr>) ids), ids))"

text \<open>
  market.py lines 283-365. The variable \<open>date\<close> is the reading of the UTC clock, cut to
  the second, taken once when the call starts; the model takes it as an argument.
\<close>

definition market_entry :: "string \<Rightarrow> string \<Rightarrow> string \<Rightarrow> int \<Rightarrow> market_stock" where
  "market_entry warehouse_id date s n =
     \<lparr>sku = s, warehouseId = warehouse_id,
      stock_items = [\<lparr>item_count = n, item_type = ''FIT'', updatedAt = date\<rparr>]\<rparr>"

fun market_stocks_loop ::
  "string \<Rightarrow> string \<Rightarrow> watch list \<Rightarrow> market_stock list \<Rightarrow> string list
     \<Rightarrow> (error + market_stock list) \<times> string list"
where
  "market_stocks_loop warehouse_id date [] stocks offer_ids = (Inr stocks, offer_ids)"
| "market_stocks_loop warehouse_id date (w # ws) stocks offer_ids =
     (if kod w \<in> set offer_ids then
        (case normalize_quantity (kolichestvo w) of
           Inl e \<Rightarrow> (Inl e, offer_ids)
         | Inr n \<Rightarrow>
             market_stocks_loop warehouse_id date ws
               (stocks @ [market_entry warehouse_id date (kod w) n])
               (remove1 (kod w) offer_ids))
      else market_stocks_loop warehouse_id date ws stocks offer_ids)"

definition market_create_stocks ::
  "string \<Rightarrow> watch list \<Rightarrow> string list \<Rightarrow> string
     \<Rightarrow> (error + market_stock list) \<times> string list"
where
  "market_create_stocks date watch_remnants offer_ids warehouse_id =
     (case market_stocks_loop warehouse_id date watch_remnants [] offer_ids of
        (Inl e, ids) \<Rightarrow> (Inl e, ids)
      | (Inr stocks, ids) \<Rightarrow>
          (Inr (stocks @ map (\<lambda>i. market_entry warehouse_id date i 0) ids), ids))"

text \<open>
  The entry of market.py that corresponds to an entry of seller.py: the loop of market.py
  is the loop of seller.py with every entry wrapped into the market format.
\<close>

definition to_market :: "string \<Rightarrow> string \<Rightarrow> stock_entry \<Rightarrow> market_stock" where
  "to_market warehouse_id date e = market_entry warehouse_id date (offer_id e) (stock e)"





section \<open>Prices\<close>

text \<open>\<open>str.split(".")\<close>: the pieces between the periods, one more than there are periods.\<close>

fun split_dot :: "string \<Rightarrow> string list" where
  "split_dot [] = [[]]"
| "split_dot (c # cs) =
     (if c = CHR ''.'' then [] # split_dot cs
      else (case split_dot cs of [] \<Rightarrow> [[c]] | p # ps \<Rightarrow> (c # p) # ps))"

text \<open>seller.py line 360: \<open>re.sub("[^0-9]", "", price.split(".")[0])\<close>.\<close>

definition price_conversion :: "string \<Rightarrow> string" where
  "price_conversion p = filter is_digit (hd (split_dot p))"

text \<open>seller.py lines 331-342; \<open>offer_ids\<close> is only read.\<close>

fun prices_loop ::
  "watch list \<Rightarrow> ozon_price list \<Rightarrow> string list \<Rightarrow> (error + ozon_price list) \<times> string list"
where
  "prices_loop [] prices offer_ids = (Inr prices, offer_ids)"
| "prices_loop (w # ws) prices offer_ids =
     (if kod w \<in> set offer_ids then
        prices_loop ws
          (prices @ [\<lparr>auto_action_enabled = ''UNKNOWN'', currency_code = ''RUB'',
                      price_offer_id = kod w, old_price = ''0'',
                      price = price_conversion (tsena w)\<rparr>])
          offer_ids
      else prices_loop ws prices offer_ids)"

definition create_prices ::
  "watch list \<Rightarrow> string list \<Rightarrow> (error + ozon_price list) \<times> string list"
where
  "create_prices watch_remnants offer_ids = prices_loop watch_remnants [] offer_ids"

text \<open>market.py lines 394-410: \<open>int(price_conversion(...))\<close> raises ValueError on \<open>""\<close>.\<close>

fun market_prices_loop ::
  "watch list \<Rightarrow> market_price list \<Rightarrow> string list
     \<Rightarrow> (error + market_price list) \<times> string list"
where
  "market_prices_loop [] prices offer_ids = (Inr prices, offer_ids)"
| "market_prices_loop (w # ws) prices offer_ids =
     (if kod w \<in> set offer_ids then
        (case py_int (price_conversion (tsena w)) of
           Inl e \<Rightarrow> (Inl e, offer_ids)
         | Inr v \<Rightarrow>
             market_prices_loop ws
               (prices @ [\<lparr>price_id = kod w,
                           price_obj = \<lparr>price_value = v, currencyId = ''RUR''\<rparr>\<rparr>])
               offer_ids)
      else market_prices_loop ws prices offer_ids)"

definition market_create_prices ::
  "watch list \<Rightarrow> string list \<Rightarrow> (error + market_price list) \<times> string list"
where
  "market_create_prices watch_remnants offer_ids = market_prices_loop watch_remnants [] offer_ids"

section \<open>Batches\<close>

text \<open>\<open>range(start, stop, step)\<close> for a positive step, as the list of its values.\<close>

function range_from :: "nat \<Rightarrow> nat \<Rightarrow> nat \<Rightarrow> nat list" where
  "range_from i stop step =
     (if step = 0 \<or> stop \<le> i then [] else i # range_from (i + step) stop step)"
  by pat_completeness auto
termination
  by (relation "measure (\<lambda>(i, stop, step). stop - i)") auto

text \<open>
  seller.py lines 381-382, \<open>divide\<close> (here \<open>divide_list\<close>, as HOL has a constant \<open>divide\<close>),
  as \<open>list(divide(lst, n))\<close>, the way every caller consumes the generator. \<open>range\<close>
  raises ValueError for a zero step and is empty for a negative one; the slice
  \<open>lst[i : i + n]\<close> stops at the end of the list.
\<close>

definition divide_list :: "'a list \<Rightarrow> int \<Rightarrow> error + 'a list list" where
  "divide_list lst n =
     (if n = 0 then Inl ValueError
      else if n < 0 then Inr []
      else Inr (map (\<lambda>i. take (nat n) (drop i lst)) (range_from 0 (length lst) (nat n))))"

section \<open>The counted pager of seller.py\<close>

text \<open>
  The \<open>result\<close> object of \<open>get_product_list\<close> (seller.py lines 70-73): the items of the
  page, the total the marketplace reports and the cursor for the next request.
\<close>

record product =
  product_id :: int
  product_offer_id :: string

record page =
  items :: "product list"
  page_total :: int
  last_id :: string

text \<open>
  seller.py lines 98-106. The marketplace is an argument: \<open>get_product_list k last_id\<close>
  is the answer to the \<open>k\<close>-th request, sent with the cursor \<open>last_id\<close>; \<open>Inl\<close> is the
  exception of \<open>raise_for_status\<close>. The loop has no bound, so it is a partial function:
  \<open>None\<close> is a run that never leaves the loop.
\<close>

partial_function (option) product_pages ::
  "(nat \<Rightarrow> string \<Rightarrow> error + page) \<Rightarrow> nat \<Rightarrow> string \<Rightarrow> product list
     \<Rightarrow> (error + product list) option"
where
  "product_pages get_product_list k cursor product_list =
     (case get_product_list k cursor of
        Inl e \<Rightarrow> Some (Inl e)
      | Inr some_prod \<Rightarrow>
          if page_total some_prod = int (length (product_list @ items some_prod))
          then Some (Inr (product_list @ items some_prod))
          else product_pages get_product_list (Suc k) (last_id some_prod)
                 (product_list @ items some_prod))"

text \<open>seller.py lines 76-110.\<close>

definition get_offer_ids :: "(nat \<Rightarrow> string \<Rightarrow> error + page) \<Rightarrow> (error + string list) option" where
  "get_offer_ids get_product_list =
     (case product_pages get_product_list 0 [] [] of
        None \<Rightarrow> None
      | Some (Inl e) \<Rightarrow> Some (Inl e)
      | Some (Inr product_list) \<Rightarrow> Some (Inr (map product_offer_id product_list)))"

section \<open>The driver of market.py\<close>

text \<open>
  What \<open>main\<close> does to the outside world, in order: the requests it sends and the
  diagnostics it prints.
\<close>

datatype diagnostic = TimeoutMsg | ConnectionMsg | Error2Msg

datatype event =
    GetOfferIds string
  | UpdateStocks string "market_stock list"
  | Print diagnostic

text \<open>
  The outside world: what \<open>get_offer_ids\<close> and \<open>update_stocks\<close> return or raise for a
  campaign, and what the clock reads, each after the events so far. Every call is
  taken to come back, with a value or with an exception.
\<close>

record world =
  offer_ids_of :: "event list \<Rightarrow> string \<Rightarrow> error + string list"
  update_stocks_of :: "event list \<Rightarrow> string \<Rightarrow> market_stock list \<Rightarrow> error + unit"
  utcnow :: "event list \<Rightarrow> string"

text \<open>market.py lines 535-536 and 544-545: the first exception ends the loop.\<close>

fun submit_stocks ::
  "world \<Rightarrow> string \<Rightarrow> market_stock list list \<Rightarrow> event list \<Rightarrow> (error + unit) \<times> event list"
where
  "submit_stocks env campaign_id [] tr = (Inr (), tr)"
| "submit_stocks env campaign_id (some_stock # rest) tr =
     (case update_stocks_of env tr campaign_id some_stock of
        Inl e \<Rightarrow> (Inl e, tr @ [UpdateStocks campaign_id some_stock])
      | Inr _ \<Rightarrow> submit_stocks env campaign_id rest (tr @ [UpdateStocks campaign_id some_stock]))"

text \<open>
  market.py lines 532-538, and again lines 541-547 for the second campaign. The call
  \<open>upload_prices(...)\<close> of lines 538 and 547 is a call of an \<open>async def\<close> without
  \<open>await\<close>: it builds a coroutine object and runs none of its body, so it sends no
  request and raises nothing.
\<close>

definition sync_campaign ::
  "world \<Rightarrow> watch list \<Rightarrow> string \<Rightarrow> string \<Rightarrow> event list \<Rightarrow> (error + unit) \<times> event list"
where
  "sync_campaign env watch_remnants campaign_id warehouse_id tr =
     (let tr1 = tr @ [GetOfferIds campaign_id] in
      case offer_ids_of env tr campaign_id of
        Inl e \<Rightarrow> (Inl e, tr1)
      | Inr offer_ids \<Rightarrow>
          (case fst (market_create_stocks (utcnow env tr1) watch_remnants offer_ids warehouse_id) of
             Inl e \<Rightarrow> (Inl e, tr1)
           | Inr stocks \<Rightarrow>
               (case divide_list stocks 2000 of
                  Inl e \<Rightarrow> (Inl e, tr1)
                | Inr batches \<Rightarrow> submit_stocks env campaign_id batches tr1)))"

text \<open>market.py lines 548-553: the three handlers, tried in this order.\<close>

definition report :: "error \<Rightarrow> diagnostic" where
  "report e =
     (if e = ReadTimeout then TimeoutMsg
      else if e = ConnectionError then ConnectionMsg
      else Error2Msg)"

text \<open>
  market.py lines 521-553, after \<open>download_stock\<close> has returned \<open>watch_remnants\<close>: one
  \<open>try\<close> block holds both campaigns.
\<close>

definition market_main ::
  "world \<Rightarrow> watch list \<Rightarrow> string \<Rightarrow> string \<Rightarrow> string \<Rightarrow> string \<Rightarrow> event list"
where
  "market_main env watch_remnants campaign_fbs_id campaign_dbs_id warehouse_fbs_id warehouse_dbs_id =
     (case sync_campaign env watch_remnants campaign_fbs_id warehouse_fbs_id [] of
        (Inl e, tr) \<Rightarrow> tr @ [Print (report e)]
      | (Inr _, tr) \<Rightarrow>
          (case sync_campaign env watch_remnants campaign_dbs_id warehouse_dbs_id tr of
             (Inl e, tr') \<Rightarrow> tr' @ [Print (report e)]
           | (Inr _, tr') \<Rightarrow> tr'))"

section \<open>Reading integers\<close>

text \<open>A text of digits only is read by \<open>int()\<close> as the number it denotes.\<close>

lemma is_digit_not_space: "is_digit c \<Longrightarrow> \<not> is_space c"
  by (auto simp: is_digit_def is_space_def Let_def)

lemma is_digit_not_mark:
  "is_digit c \<Longrightarrow> c \<noteq> CHR ''_'' \<and> c \<noteq> CHR ''-'' \<and> c \<noteq> CHR ''+''"
  by (auto simp: is_digit_def)

lemma strip_digits: "list_all is_digit ds \<Longrightarrow> strip ds = ds"
proof (cases ds)
  case Nil
  then show ?thesis by (simp add: strip_def)
next
  case (Cons d rest)
  assume all: "list_all is_digit ds"
  have front: "dropWhile is_space ds = ds"
    using all Cons by (simp add: is_digit_not_space)
  have "is_digit (last ds)"
    using all Cons by (metis last_in_set list.discI list_all_iff)
  moreover have "ds \<noteq> []" using Cons by simp
  ultimately have "\<not> is_space (hd (rev ds))"
    by (simp only: hd_rev is_digit_not_space not_False_eq_True)
  then have rear: "dropWhile is_space (rev ds) = rev ds"
    by (simp add: dropWhile_eq_self_iff)
  show ?thesis by (simp add: strip_def front rear)
qed

lemma int_body_digits: "ds \<noteq> [] \<Longrightarrow> list_all is_digit ds \<Longrightarrow> int_body ds"
  by (induction ds rule: int_body.induct) (auto simp: is_digit_not_mark)

lemma filter_digits: "list_all is_digit ds \<Longrightarrow> filter (\<lambda>c. c \<noteq> CHR ''_'') ds = ds"
  by (induction ds) (auto simp: is_digit_not_mark)

lemma py_int_digits:
  assumes "ds \<noteq> []" "list_all is_digit ds" "length ds \<le> int_max_str_digits"
  shows "py_int ds = Inr (int (dec ds))"
proof -
  obtain d rest where ds: "ds = d # rest" using assms(1) by (cases ds) auto
  have d: "d \<noteq> CHR ''-''" "d \<noteq> CHR ''+''"
    using assms(2) ds by (auto simp: is_digit_not_mark)
  show ?thesis
    using assms d int_body_digits [OF assms(1,2)] filter_digits [OF assms(2)]
    by (simp add: py_int_def strip_digits ds)
qed

lemma int_body_chars: "int_body b \<Longrightarrow> c \<in> set b \<Longrightarrow> is_digit c \<or> c = CHR ''_''"
  by (induction b rule: int_body.induct) (auto split: if_splits)

lemma dropWhile_keeps: "c \<in> set s \<Longrightarrow> \<not> P c \<Longrightarrow> c \<in> set (dropWhile P s)"
  by (induction s) auto

lemma strip_keeps: "c \<in> set s \<Longrightarrow> \<not> is_space c \<Longrightarrow> c \<in> set (strip s)"
  by (simp add: strip_def dropWhile_keeps)

lemma py_int_bad_char:
  assumes "c \<in> set s" "\<not> is_digit c" "\<not> is_space c"
    "c \<noteq> CHR ''_''" "c \<noteq> CHR ''-''" "c \<noteq> CHR ''+''"
  shows "py_int s = Inl ValueError"
proof -
  have mem: "c \<in> set (strip s)" using assms(1,3) by (rule strip_keeps)
  then obtain c0 r where t: "strip s = c0 # r" by (cases "strip s") auto
  have "\<not> int_body (strip s)" using int_body_chars mem assms by blast
  moreover have "c0 = CHR ''-'' \<or> c0 = CHR ''+'' \<Longrightarrow> \<not> int_body r"
    using int_body_chars [of r c] mem assms t by auto
  ultimately show ?thesis by (auto simp: py_int_def t)
qed

section \<open>The quantity rule\<close>

text \<open>
  A blank quantity cell (\<open>""\<close>) is neither \<open>">10"\<close> nor \<open>"1"\<close>, and \<open>int("")\<close> raises
  ValueError: the rule returns no quantity for it.
\<close>

theorem normalize_quantity_not_total_counterexample:
  "\<not> (\<exists>n. normalize_quantity '''' = Inr n)"
  by (simp add: normalize_quantity_def py_int_def strip_def)

text \<open>
  C3, as amended. The quantity rule of \<open>create_stocks\<close> maps \<open>">10"\<close> to 100, \<open>"1"\<close> to 0,
  \<open>"7"\<close> to 7, \<open>"0"\<close> to 0 and every other text of at most 4300 decimal digits to the
  number it denotes. It is not total: on the empty text, and on every text other than
  \<open>">10"\<close> that holds an ASCII character which is no digit, none of the white-space
  characters \<open>int()\<close> skips (9..13 and 32), no sign and no underscore, it raises
  ValueError.
\<close>

theorem normalize_quantity_rule:
  "normalize_quantity ''>10'' = Inr 100
   \<and> normalize_quantity ''1'' = Inr 0
   \<and> normalize_quantity ''7'' = Inr 7
   \<and> normalize_quantity ''0'' = Inr 0
   \<and> (ds \<noteq> [] \<and> list_all is_digit ds \<and> length ds \<le> int_max_str_digits \<and> ds \<noteq> ''1''
        \<longrightarrow> normalize_quantity ds = Inr (int (dec ds)))
   \<and> (s \<noteq> ''>10''
        \<and> (\<exists>c\<in>set s. (of_char c :: nat) < 128 \<and> \<not> is_digit c \<and> \<not> is_space c
               \<and> c \<noteq> CHR ''_'' \<and> c \<noteq> CHR ''-'' \<and> c \<noteq> CHR ''+'')
        \<longrightarrow> normalize_quantity s = Inl ValueError)
   \<and> normalize_quantity '''' = Inl ValueError"
proof -
  have seven: "normalize_quantity ''7'' = Inr 7"
    by (simp add: normalize_quantity_def py_int_def strip_def is_space_def is_digit_def
        dec_def digit_val_def int_max_str_digits_def)
  have zero: "normalize_quantity ''0'' = Inr 0"
    by (simp add: normalize_quantity_def py_int_def strip_def is_space_def is_digit_def
        dec_def digit_val_def int_max_str_digits_def)
  have digits: "normalize_quantity ds = Inr (int (dec ds))"
    if "ds \<noteq> []" "list_all is_digit ds" "length ds \<le> int_max_str_digits" "ds \<noteq> ''1''"
  proof -
    have "ds \<noteq> ''>10''" using that(2) by (auto simp: is_digit_def)
    then show ?thesis using that by (simp add: normalize_quantity_def py_int_digits)
  qed
  have bad: "normalize_quantity s = Inl ValueError"
    if "s \<noteq> ''>10''" "c \<in> set s" "\<not> is_digit c" "\<not> is_space c"
      "c \<noteq> CHR ''_''" "c \<noteq> CHR ''-''" "c \<noteq> CHR ''+''" for c
  proof -
    have "s \<noteq> ''1''" using that(2,3) by (auto simp: is_digit_def)
    then show ?thesis
      using that by (simp add: normalize_quantity_def py_int_bad_char [of c s])
  qed
  have empty: "normalize_quantity '''' = Inl ValueError"
    by (simp add: normalize_quantity_def py_int_def strip_def)
  have plenty: "normalize_quantity ''>10'' = Inr 100"
    by (simp add: normalize_quantity_def)
  have one: "normalize_quantity ''1'' = Inr 0"
    by (simp add: normalize_quantity_def)
  show ?thesis
    using plenty one seven zero digits bad empty by blast
qed

theorem normalize_quantity_rule_witness:
  "normalize_quantity ''42'' = Inr 42 \<and> normalize_quantity ''7.5'' = Inl ValueError
   \<and> normalize_quantity [CHR 0x1F, CHR ''5''] = Inl ValueError"
proof -
  have a: "''42'' \<noteq> [] \<and> list_all is_digit ''42'' \<and> length ''42'' \<le> int_max_str_digits
           \<and> ''42'' \<noteq> ''1''"
    by (simp add: is_digit_def int_max_str_digits_def)
  have b: "''7.5'' \<noteq> ''>10''
        \<and> (\<exists>c\<in>set ''7.5''. (of_char c :: nat) < 128 \<and> \<not> is_digit c \<and> \<not> is_space c
               \<and> c \<noteq> CHR ''_'' \<and> c \<noteq> CHR ''-'' \<and> c \<noteq> CHR ''+'')"
    by (simp add: is_digit_def is_space_def)
  have v: "int (dec ''42'') = 42" by (simp add: dec_def digit_val_def)
  have "normalize_quantity ''42'' = Inr (int (dec ''42''))"
    using normalize_quantity_rule [of "''42''" "''7.5''"] a by blast
  moreover have "normalize_quantity ''7.5'' = Inl ValueError"
    using normalize_quantity_rule [of "''42''" "''7.5''"] b by blast
  moreover have "normalize_quantity [CHR 0x1F, CHR ''5''] = Inl ValueError"
  proof -
    have "[CHR 0x1F, CHR ''5''] \<noteq> ''>10''
        \<and> (\<exists>c\<in>set [CHR 0x1F, CHR ''5'']. (of_char c :: nat) < 128 \<and> \<not> is_digit c
               \<and> \<not> is_space c \<and> c \<noteq> CHR ''_'' \<and> c \<noteq> CHR ''-'' \<and> c \<noteq> CHR ''+'')"
      by (simp add: is_digit_def is_space_def)
    then show ?thesis
      using normalize_quantity_rule [of "''42''" "[CHR 0x1F, CHR ''5'']"] by blast
  qed
  ultimately show ?thesis using v by simp
qed

section \<open>Batches\<close>

declare range_from.simps [simp del]

lemma range_from_stop: "stop \<le> i \<Longrightarrow> range_from i stop step = []"
  by (simp add: range_from.simps)

lemma range_from_step:
  "0 < step \<Longrightarrow> i < stop \<Longrightarrow> range_from i stop step = i # range_from (i + step) stop step"
  by (subst range_from.simps) simp

lemma concat_slices:
  "0 < n \<Longrightarrow> concat (map (\<lambda>j. take n (drop j lst)) (range_from i (length lst) n)) = drop i lst"
proof (induction i "length lst" n rule: range_from.induct)
  case (1 i step)
  show ?case
  proof (cases "i < length lst")
    case True
    have "take step (drop i lst) @ drop (i + step) lst = drop i lst"
      by (metis add.commute append_take_drop_id drop_drop)
    then show ?thesis
      using 1 True by (simp add: range_from_step)
  next
    case False
    then show ?thesis by (simp add: range_from_stop)
  qed
qed

lemma slices_lengths:
  "0 < n \<Longrightarrow>
   map length (map (\<lambda>j. take n (drop j lst)) (range_from i (length lst) n)) =
     replicate ((length lst - i) div n) n @
     (if (length lst - i) mod n = 0 then [] else [(length lst - i) mod n])"
proof (induction i "length lst" n rule: range_from.induct)
  case (1 i step)
  show ?case
  proof (cases "i < length lst")
    case False
    then show ?thesis by (simp add: range_from_stop)
  next
    case True
    show ?thesis
    proof (cases "step \<le> length lst - i")
      case True
      have d: "(length lst - i) div step = Suc ((length lst - (i + step)) div step)"
        using True 1(2) by (simp add: le_div_geq)
      have m: "(length lst - i) mod step = (length lst - (i + step)) mod step"
        using True by (simp add: le_mod_geq)
      have l: "min (length lst - i) step = step" using True by simp
      show ?thesis
        using 1 \<open>i < length lst\<close> by (simp add: range_from_step d m l)
    next
      case False
      then have small: "length lst - i < step" by simp
      have e: "range_from (i + step) (length lst) step = []"
        using small by (simp add: range_from_stop)
      have l: "min (length lst - i) step = length lst - i" using small by simp
      show ?thesis
        using 1(2) \<open>i < length lst\<close> small by (simp add: range_from_step e l)
    qed
  qed
qed

lemma divide_positive:
  "0 < n \<Longrightarrow>
   divide_list lst n = Inr (map (\<lambda>j. take (nat n) (drop j lst)) (range_from 0 (length lst) (nat n)))"
  by (simp add: divide_list_def)

text \<open>
  C5. For \<open>n > 0\<close>, \<open>divide_list lst n\<close> returns batches whose concatenation is \<open>lst\<close>; none is
  empty or longer than \<open>n\<close>; all have length \<open>n\<close> but a shorter last one when \<open>n\<close> does not
  divide the length. The empty list gives no batch, a list of 9 three batches of 3, and a
  list of 7 batches of lengths 3, 3, 1.
\<close>

theorem divide_covers:
  assumes "0 < n"
  shows "\<exists>bs. divide_list lst n = Inr bs
           \<and> concat bs = lst
           \<and> list_all (\<lambda>b. b \<noteq> [] \<and> int (length b) \<le> n) bs
           \<and> map length bs =
               replicate (length lst div nat n) (nat n) @
               (if length lst mod nat n = 0 then [] else [length lst mod nat n])
           \<and> (lst = [] \<longrightarrow> bs = [])
           \<and> (n = 3 \<and> length lst = 9 \<longrightarrow> map length bs = [3, 3, 3])
           \<and> (n = 3 \<and> length lst = 7 \<longrightarrow> map length bs = [3, 3, 1])"
proof -
  define bs where "bs = map (\<lambda>j. take (nat n) (drop j lst)) (range_from 0 (length lst) (nat n))"
  have pos: "0 < nat n" using assms by simp
  have ret: "divide_list lst n = Inr bs"
    using assms by (simp add: divide_positive bs_def)
  have cat: "concat bs = lst"
    using concat_slices [OF pos, of lst 0] by (simp add: bs_def)
  have lens: "map length bs =
      replicate (length lst div nat n) (nat n) @
      (if length lst mod nat n = 0 then [] else [length lst mod nat n])"
    using slices_lengths [OF pos, of lst 0] by (simp add: bs_def)
  have each: "list_all (\<lambda>b. b \<noteq> [] \<and> int (length b) \<le> n) bs"
  proof -
    have "\<forall>k\<in>set (map length bs). 0 < k \<and> k \<le> nat n"
      unfolding lens using pos by (auto intro: mod_less_divisor less_imp_le)
    then show ?thesis using assms by (auto simp: list_all_iff)
  qed
  have none: "lst = [] \<longrightarrow> bs = []"
    by (simp add: bs_def range_from_stop)
  have r3: "replicate 3 k = [k, k, k]" for k :: nat
    by (simp add: numeral_3_eq_3)
  have r2: "replicate 2 k = [k, k]" for k :: nat
    by (simp add: numeral_2_eq_2)
  have nine: "n = 3 \<and> length lst = 9 \<longrightarrow> map length bs = [3, 3, 3]"
  proof (intro impI, elim conjE)
    assume h: "n = 3" "length lst = 9"
    have "length lst div nat n = 3" "length lst mod nat n = 0"
      using h by simp_all
    then show "map length bs = [3, 3, 3]"
      using h by (simp add: lens r3)
  qed
  have seven: "n = 3 \<and> length lst = 7 \<longrightarrow> map length bs = [3, 3, 1]"
  proof (intro impI, elim conjE)
    assume h: "n = 3" "length lst = 7"
    have "length lst div nat n = 2" "length lst mod nat n = 1"
      using h by simp_all
    then show "map length bs = [3, 3, 1]"
      using h by (simp add: lens r2)
  qed
  show ?thesis
    by (rule exI [of _ bs], intro conjI) (fact ret cat lens each none nine seven)+
qed


theorem divide_covers_witness:
  "divide_list [1, 2, 3, 4, 5, 6, 7 :: nat] 3 = Inr [[1, 2, 3], [4, 5, 6], [7]]
   \<and> divide_list ([] :: nat list) 3 = Inr []"
proof -
  obtain bs where bs: "divide_list [1, 2, 3, 4, 5, 6, 7 :: nat] 3 = Inr bs" "concat bs = [1, 2, 3, 4, 5, 6, 7]"
    "length [1, 2, 3, 4, 5, 6, 7 :: nat] = 7 \<Longrightarrow> map length bs = [3, 3, 1]"
    using divide_covers [of 3 "[1, 2, 3, 4, 5, 6, 7 :: nat]"] by auto
  have l: "map length bs = [3, 3, 1]" using bs(3) by simp
  obtain a b c where abc: "bs = [a, b, c]" "length a = 3" "length b = 3" "length c = 1"
    using l by (auto simp: map_eq_Cons_conv)
  have "bs = [[1, 2, 3], [4, 5, 6], [7]]"
    using bs(2) abc by (auto simp: length_Suc_conv numeral_3_eq_3)
  moreover have "divide_list ([] :: nat list) 3 = Inr []"
    using divide_covers [of 3 "[] :: nat list"] by auto
  ultimately show ?thesis using bs(1) by simp
qed

section \<open>Price conversion\<close>







section \<open>The two variants of the stock loop\<close>

lemma market_stocks_loop_eq:
  "market_stocks_loop wh d F (map (to_market wh d) acc) ids =
     (case stocks_loop F acc ids of
        (Inl e, ids') \<Rightarrow> (Inl e, ids')
      | (Inr st, ids') \<Rightarrow> (Inr (map (to_market wh d) st), ids'))"
proof (induction F arbitrary: acc ids)
  case Nil
  show ?case by simp
next
  case (Cons w ws)
  have step: "map (to_market wh d) acc @ [market_entry wh d (kod w) n] =
      map (to_market wh d) (acc @ [\<lparr>offer_id = kod w, stock = n\<rparr>])" for n
    by (simp add: to_market_def)
  show ?case
    by (simp add: step Cons.IH split: sum.splits del: map_append)
qed

lemma market_create_stocks_eq:
  "market_create_stocks d F ids wh =
     (case create_stocks F ids of
        (Inl e, ids') \<Rightarrow> (Inl e, ids')
      | (Inr st, ids') \<Rightarrow> (Inr (map (to_market wh d) st), ids'))"
  using market_stocks_loop_eq [of wh d F "[]" ids]
  by (auto simp: market_create_stocks_def create_stocks_def to_market_def
      split: prod.splits sum.splits)

lemma sku_to_market: "map sku (map (to_market wh d) st) = map offer_id st"
  by (simp add: to_market_def market_entry_def)

section \<open>Invariants of the stock loop\<close>

lemma insert_remove1: "x \<in> set xs \<Longrightarrow> insert x (set (remove1 x xs)) = set xs"
  by (induction xs) auto

lemma remove1_subset: "y \<in> set (remove1 x xs) \<Longrightarrow> y \<in> set xs"
  using notin_set_remove1 by fastforce

lemma stocks_loop_length:
  "stocks_loop F acc ids = (Inr st, ids') \<Longrightarrow> length st + length ids' = length acc + length ids"
proof (induction F arbitrary: acc ids)
  case Nil
  then show ?case by simp
next
  case (Cons w ws)
  show ?case
  proof (cases "kod w \<in> set ids")
    case False
    with Cons show ?thesis by simp
  next
    case True
    then obtain n where n: "normalize_quantity (kolichestvo w) = Inr n"
      using Cons.prems by (cases "normalize_quantity (kolichestvo w)") auto
    have "length st + length ids' =
        length (acc @ [\<lparr>offer_id = kod w, stock = n\<rparr>]) + length (remove1 (kod w) ids)"
      using Cons.prems True n by (intro Cons.IH) simp
    moreover have "0 < length ids" using True by (cases ids) auto
    ultimately show ?thesis using True by (simp add: length_remove1)
  qed
qed

lemma stocks_loop_codes:
  "stocks_loop F acc ids = (Inr st, ids') \<Longrightarrow>
   set (map offer_id st) \<union> set ids' = set (map offer_id acc) \<union> set ids"
proof (induction F arbitrary: acc ids)
  case Nil
  then show ?case by simp
next
  case (Cons w ws)
  show ?case
  proof (cases "kod w \<in> set ids")
    case False
    with Cons show ?thesis by simp
  next
    case True
    then obtain n where n: "normalize_quantity (kolichestvo w) = Inr n"
      using Cons.prems by (cases "normalize_quantity (kolichestvo w)") auto
    have "set (map offer_id st) \<union> set ids' =
        set (map offer_id (acc @ [\<lparr>offer_id = kod w, stock = n\<rparr>])) \<union> set (remove1 (kod w) ids)"
      using Cons.prems True n by (intro Cons.IH) simp
    moreover have "insert (kod w) (set (remove1 (kod w) ids)) = set ids"
      using True by (rule insert_remove1)
    ultimately show ?thesis by auto
  qed
qed

lemma stocks_loop_distinct:
  "stocks_loop F acc ids = (Inr st, ids') \<Longrightarrow> distinct (map offer_id acc @ ids) \<Longrightarrow>
   distinct (map offer_id st @ ids')"
proof (induction F arbitrary: acc ids)
  case Nil
  then show ?case by simp
next
  case (Cons w ws)
  show ?case
  proof (cases "kod w \<in> set ids")
    case False
    with Cons show ?thesis by simp
  next
    case True
    then obtain n where n: "normalize_quantity (kolichestvo w) = Inr n"
      using Cons.prems by (cases "normalize_quantity (kolichestvo w)") auto
    have run: "stocks_loop ws (acc @ [\<lparr>offer_id = kod w, stock = n\<rparr>]) (remove1 (kod w) ids) = (Inr st, ids')"
      using Cons.prems True n by simp
    have "distinct (map offer_id (acc @ [\<lparr>offer_id = kod w, stock = n\<rparr>]) @ remove1 (kod w) ids)"
      using Cons.prems(2) True by (auto dest: remove1_subset)
    then show ?thesis by (rule Cons.IH [OF run])
  qed
qed

lemma stocks_loop_returns:
  "\<forall>w\<in>set F. kod w \<in> set ids \<longrightarrow> (\<exists>n. normalize_quantity (kolichestvo w) = Inr n) \<Longrightarrow>
   \<exists>st ids'. stocks_loop F acc ids = (Inr st, ids')"
proof (induction F arbitrary: acc ids)
  case Nil
  show ?case by simp
next
  case (Cons w ws)
  show ?case
  proof (cases "kod w \<in> set ids")
    case False
    with Cons show ?thesis by simp
  next
    case True
    then obtain n where n: "normalize_quantity (kolichestvo w) = Inr n"
      using Cons.prems by auto
    have "\<forall>v\<in>set ws. kod v \<in> set (remove1 (kod w) ids) \<longrightarrow>
        (\<exists>n. normalize_quantity (kolichestvo v) = Inr n)"
      using Cons.prems by (auto dest: remove1_subset)
    from Cons.IH [OF this] show ?thesis using True n by simp
  qed
qed

lemma py_int_error: "py_int s = Inl e \<Longrightarrow> e = ValueError"
  by (auto simp: py_int_def Let_def split: if_splits prod.splits)

lemma normalize_quantity_error: "normalize_quantity s = Inl e \<Longrightarrow> e = ValueError"
  by (auto simp: normalize_quantity_def split: if_splits dest: py_int_error)

lemma stocks_loop_raises:
  "stocks_loop F acc ids = (Inl e, ids') \<Longrightarrow>
   e = ValueError \<and> (\<exists>w\<in>set F. kod w \<in> set ids \<and> normalize_quantity (kolichestvo w) = Inl ValueError)"
proof (induction F arbitrary: acc ids)
  case Nil
  then show ?case by simp
next
  case (Cons w ws)
  show ?case
  proof (cases "kod w \<in> set ids")
    case False
    with Cons show ?thesis by simp
  next
    case True
    show ?thesis
    proof (cases "normalize_quantity (kolichestvo w)")
      case (Inl e')
      then show ?thesis using Cons.prems True normalize_quantity_error by auto
    next
      case (Inr n)
      then have "stocks_loop ws (acc @ [\<lparr>offer_id = kod w, stock = n\<rparr>]) (remove1 (kod w) ids) = (Inl e, ids')"
        using Cons.prems True by simp
      from Cons.IH [OF this] obtain v where "e = ValueError" "v \<in> set ws"
        "kod v \<in> set (remove1 (kod w) ids)" "normalize_quantity (kolichestvo v) = Inl ValueError"
        by blast
      then show ?thesis using remove1_subset [of "kod v" "kod w" ids] by auto
    qed
  qed
qed

section \<open>Feed records that are skipped\<close>

lemma stocks_loop_unmatched:
  "kod w \<notin> set ids \<Longrightarrow> stocks_loop (F1 @ w # F2) acc ids = stocks_loop (F1 @ F2) acc ids"
proof (induction F1 arbitrary: acc ids)
  case Nil
  then show ?case by simp
next
  case (Cons x xs)
  have "kod w \<notin> set (remove1 (kod x) ids)"
    using Cons.prems remove1_subset by fast
  then show ?case
    using Cons.IH Cons.prems by (simp split: sum.splits)
qed

lemma stocks_loop_repeated:
  "distinct ids \<Longrightarrow> kod w \<in> kod ` set F1 \<Longrightarrow>
   stocks_loop (F1 @ w # F2) acc ids = stocks_loop (F1 @ F2) acc ids"
proof (induction F1 arbitrary: acc ids)
  case Nil
  then show ?case by simp
next
  case (Cons x xs)
  show ?case
  proof (cases "kod w \<in> set ids")
    case False
    then show ?thesis by (rule stocks_loop_unmatched)
  next
    case True
    note known = this
    show ?thesis
    proof (cases "kod x = kod w")
      case True
      have "kod w \<notin> set (remove1 (kod w) ids)"
        using Cons.prems(1) by simp
      then have "stocks_loop (xs @ w # F2) acc' (remove1 (kod w) ids) =
          stocks_loop (xs @ F2) acc' (remove1 (kod w) ids)" for acc'
        by (rule stocks_loop_unmatched)
      then show ?thesis using True known by (simp split: sum.splits)
    next
      case False
      then have later: "kod w \<in> kod ` set xs" using Cons.prems(2) by auto
      have "distinct (remove1 (kod x) ids)" using Cons.prems(1) by simp
      then show ?thesis
        using Cons.IH [OF _ later] Cons.prems(1) by (simp split: sum.splits)
    qed
  qed
qed

lemma create_stocks_repeated:
  "distinct ids \<Longrightarrow> kod w \<in> kod ` set F1 \<Longrightarrow>
   create_stocks (F1 @ w # F2) ids = create_stocks (F1 @ F2) ids"
  by (simp add: create_stocks_def stocks_loop_repeated)

section \<open>What \<open>create_stocks\<close> returns\<close>

lemma create_stocks_result:
  assumes "create_stocks F ids = (Inr st, ids')"
  shows "length st = length ids"
    and "set (map offer_id st) = set ids"
    and "distinct ids \<Longrightarrow> distinct (map offer_id st)"
proof -
  obtain m where loop: "stocks_loop F [] ids = (Inr m, ids')"
    and st: "st = m @ map (\<lambda>i. \<lparr>offer_id = i, stock = 0\<rparr>) ids'"
    using assms by (auto simp: create_stocks_def split: prod.splits sum.splits)
  have codes: "map offer_id st = map offer_id m @ ids'"
    by (simp add: st comp_def)
  show "length st = length ids"
    using stocks_loop_length [OF loop] by (simp add: st)
  show "set (map offer_id st) = set ids"
    using stocks_loop_codes [OF loop] by (simp add: codes)
  show "distinct (map offer_id st)" if "distinct ids"
    using stocks_loop_distinct [OF loop] that by (simp add: codes)
qed

lemma create_stocks_returns:
  "\<forall>w\<in>set F. kod w \<in> set ids \<longrightarrow> (\<exists>n. normalize_quantity (kolichestvo w) = Inr n) \<Longrightarrow>
   \<exists>st ids'. create_stocks F ids = (Inr st, ids')"
  using stocks_loop_returns [of F ids "[]"] by (auto simp: create_stocks_def)

lemma create_stocks_raises:
  "create_stocks F ids = (Inl e, ids') \<Longrightarrow>
   e = ValueError \<and> (\<exists>w\<in>set F. kod w \<in> set ids \<and> normalize_quantity (kolichestvo w) = Inl ValueError)"
  using stocks_loop_raises [of F "[]" ids e ids']
  by (auto simp: create_stocks_def split: prod.splits sum.splits)

lemma market_create_stocks_Inr:
  "market_create_stocks d F ids wh = (Inr ms, ids') \<longleftrightarrow>
   (\<exists>st. create_stocks F ids = (Inr st, ids') \<and> ms = map (to_market wh d) st)"
  by (auto simp: market_create_stocks_eq split: prod.splits sum.splits)

lemma market_create_stocks_Inl:
  "market_create_stocks d F ids wh = (Inl e, ids') \<longleftrightarrow> create_stocks F ids = (Inl e, ids')"
  by (auto simp: market_create_stocks_eq split: prod.splits sum.splits)

section \<open>One stock entry for every offer identifier\<close>

text \<open>
  A record of the feed whose code is on the marketplace and whose quantity cell is blank
  makes both variants of \<open>create_stocks\<close> raise ValueError: no entry is returned.
\<close>

theorem create_stocks_raises_counterexample:
  "create_stocks [\<lparr>kod = ''A'', kolichestvo = '''', tsena = ''100.00''\<rparr>] [''A'']
     = (Inl ValueError, [''A''])
   \<and> market_create_stocks ''2023-08-13T19:50:21Z''
       [\<lparr>kod = ''A'', kolichestvo = '''', tsena = ''100.00''\<rparr>] [''A''] ''143645''
     = (Inl ValueError, [''A''])"
  by (simp add: create_stocks_def market_create_stocks_def normalize_quantity_def py_int_def
      strip_def)

text \<open>
  C1, as amended. Let \<open>offer_ids\<close> be free of duplicates. If every feed record whose code
  is in \<open>offer_ids\<close> has a quantity the rule accepts, \<open>create_stocks\<close> (of seller.py and of
  market.py) returns. Whenever it returns, it returns exactly as many entries as there
  are identifiers, their codes have no duplicate and form the set of \<open>offer_ids\<close>.
  Otherwise it has raised ValueError at the quantity of a feed record whose code is in
  \<open>offer_ids\<close>. A feed record whose code an earlier record carries is skipped: the call
  runs as if the record were not in the feed.
\<close>

theorem create_stocks_one_entry_per_offer_id:
  assumes "distinct offer_ids"
  shows
    "((\<forall>w\<in>set F. kod w \<in> set offer_ids \<longrightarrow> (\<exists>n. normalize_quantity (kolichestvo w) = Inr n))
        \<longrightarrow> (\<exists>st ids'. create_stocks F offer_ids = (Inr st, ids'))
          \<and> (\<exists>ms ids'. market_create_stocks d F offer_ids wh = (Inr ms, ids')))
     \<and> (\<forall>st ids'. create_stocks F offer_ids = (Inr st, ids') \<longrightarrow>
          length st = length offer_ids \<and> distinct (map offer_id st)
          \<and> set (map offer_id st) = set offer_ids)
     \<and> (\<forall>ms ids'. market_create_stocks d F offer_ids wh = (Inr ms, ids') \<longrightarrow>
          length ms = length offer_ids \<and> distinct (map sku ms)
          \<and> set (map sku ms) = set offer_ids)
     \<and> (\<forall>e ids'. create_stocks F offer_ids = (Inl e, ids')
                  \<or> market_create_stocks d F offer_ids wh = (Inl e, ids') \<longrightarrow>
          e = ValueError
          \<and> (\<exists>w\<in>set F. kod w \<in> set offer_ids
                \<and> normalize_quantity (kolichestvo w) = Inl ValueError))
     \<and> (kod w \<in> kod ` set F1 \<longrightarrow>
          create_stocks (F1 @ w # F2) offer_ids = create_stocks (F1 @ F2) offer_ids
          \<and> market_create_stocks d (F1 @ w # F2) offer_ids wh
              = market_create_stocks d (F1 @ F2) offer_ids wh)"
proof (intro conjI)
  show "(\<forall>w\<in>set F. kod w \<in> set offer_ids \<longrightarrow> (\<exists>n. normalize_quantity (kolichestvo w) = Inr n))
        \<longrightarrow> (\<exists>st ids'. create_stocks F offer_ids = (Inr st, ids'))
          \<and> (\<exists>ms ids'. market_create_stocks d F offer_ids wh = (Inr ms, ids'))"
    using create_stocks_returns [of F offer_ids] by (auto simp: market_create_stocks_Inr)
  show "\<forall>st ids'. create_stocks F offer_ids = (Inr st, ids') \<longrightarrow>
          length st = length offer_ids \<and> distinct (map offer_id st)
          \<and> set (map offer_id st) = set offer_ids"
    using create_stocks_result assms by blast
  show "\<forall>ms ids'. market_create_stocks d F offer_ids wh = (Inr ms, ids') \<longrightarrow>
          length ms = length offer_ids \<and> distinct (map sku ms)
          \<and> set (map sku ms) = set offer_ids"
  proof (intro allI impI)
    fix ms ids'
    assume "market_create_stocks d F offer_ids wh = (Inr ms, ids')"
    then obtain st where st: "create_stocks F offer_ids = (Inr st, ids')"
      and ms: "ms = map (to_market wh d) st"
      by (auto simp: market_create_stocks_Inr)
    have codes: "map sku ms = map offer_id st"
      unfolding ms by (rule sku_to_market)
    have "length ms = length st" by (simp add: ms)
    then show "length ms = length offer_ids \<and> distinct (map sku ms)
          \<and> set (map sku ms) = set offer_ids"
      unfolding codes using create_stocks_result [OF st] assms by simp
  qed
  show "\<forall>e ids'. create_stocks F offer_ids = (Inl e, ids')
                  \<or> market_create_stocks d F offer_ids wh = (Inl e, ids') \<longrightarrow>
          e = ValueError
          \<and> (\<exists>w\<in>set F. kod w \<in> set offer_ids
                \<and> normalize_quantity (kolichestvo w) = Inl ValueError)"
    using create_stocks_raises [of F offer_ids] by (simp add: market_create_stocks_Inl)
  show "kod w \<in> kod ` set F1 \<longrightarrow>
          create_stocks (F1 @ w # F2) offer_ids = create_stocks (F1 @ F2) offer_ids
          \<and> market_create_stocks d (F1 @ w # F2) offer_ids wh
              = market_create_stocks d (F1 @ F2) offer_ids wh"
    using create_stocks_repeated [OF assms, of w F1 F2]
    by (simp add: market_create_stocks_eq)
qed

theorem create_stocks_one_entry_per_offer_id_witness:
  "(\<exists>st ids'. create_stocks
       [\<lparr>kod = ''A'', kolichestvo = ''5'', tsena = ''100.00''\<rparr>,
        \<lparr>kod = ''A'', kolichestvo = ''7'', tsena = ''90.00''\<rparr>] [''A'', ''B''] = (Inr st, ids'))
   \<and> create_stocks
       [\<lparr>kod = ''A'', kolichestvo = ''5'', tsena = ''100.00''\<rparr>,
        \<lparr>kod = ''A'', kolichestvo = ''7'', tsena = ''90.00''\<rparr>] [''A'', ''B'']
     = create_stocks [\<lparr>kod = ''A'', kolichestvo = ''5'', tsena = ''100.00''\<rparr>] [''A'', ''B'']"
proof -
  let ?a = "\<lparr>kod = ''A'', kolichestvo = ''5'', tsena = ''100.00''\<rparr>"
  let ?b = "\<lparr>kod = ''A'', kolichestvo = ''7'', tsena = ''90.00''\<rparr>"
  have d: "distinct [''A'', ''B'']" by simp
  have five: "normalize_quantity ''5'' = Inr 5" and seven: "normalize_quantity ''7'' = Inr 7"
    by (simp_all add: normalize_quantity_def py_int_def strip_def is_space_def is_digit_def
        dec_def digit_val_def int_max_str_digits_def)
  have q: "\<forall>w\<in>set [?a, ?b]. kod w \<in> set [''A'', ''B''] \<longrightarrow>
      (\<exists>n. normalize_quantity (kolichestvo w) = Inr n)"
    by (simp add: five seven)
  have r: "kod ?b \<in> kod ` set [?a]" by simp
  have "\<exists>st ids'. create_stocks [?a, ?b] [''A'', ''B''] = (Inr st, ids')"
    using create_stocks_one_entry_per_offer_id [OF d, of "[?a, ?b]"] q by blast
  moreover have "create_stocks ([?a] @ ?b # []) [''A'', ''B''] = create_stocks ([?a] @ []) [''A'', ''B'']"
    using create_stocks_one_entry_per_offer_id [OF d, of _ _ _ ?b "[?a]" "[]"] r by blast
  ultimately show ?thesis by simp
qed

section \<open>The stock loop and its specification\<close>





















section \<open>The identifier list after the calls\<close>

lemma prices_loop_offer_ids: "snd (prices_loop F acc ids) = ids"
  by (induction F arbitrary: acc) auto

lemma market_prices_loop_offer_ids: "snd (market_prices_loop F acc ids) = ids"
  by (induction F arbitrary: acc) (auto split: sum.splits)

text \<open>
  C6. \<open>create_prices\<close> of seller.py and of market.py leave the identifier list as it was,
  whatever the feed, also when the call of market.py ends with an exception.
\<close>

theorem create_prices_keeps_offer_ids:
  "snd (create_prices F offer_ids) = offer_ids
   \<and> snd (market_create_prices F offer_ids) = offer_ids"
  by (simp add: create_prices_def market_create_prices_def prices_loop_offer_ids
      market_prices_loop_offer_ids)

theorem create_prices_keeps_offer_ids_witness:
  "snd (create_prices [\<lparr>kod = ''A'', kolichestvo = ''5'', tsena = ''100.00''\<rparr>] [''A'', ''B''])
     = [''A'', ''B'']
   \<and> snd (market_create_prices [\<lparr>kod = ''A'', kolichestvo = ''5'', tsena = ''abc.00''\<rparr>]
       [''A'', ''B'']) = [''A'', ''B'']"
  using create_prices_keeps_offer_ids [of "[\<lparr>kod = ''A'', kolichestvo = ''5'', tsena = ''100.00''\<rparr>]" "[''A'', ''B'']"]
    create_prices_keeps_offer_ids [of "[\<lparr>kod = ''A'', kolichestvo = ''5'', tsena = ''abc.00''\<rparr>]" "[''A'', ''B'']"]
  by simp

lemma stocks_loop_remaining:
  "distinct ids \<Longrightarrow> stocks_loop F acc ids = (Inr st, ids') \<Longrightarrow>
   ids' = filter (\<lambda>i. i \<notin> kod ` set F) ids"
proof (induction F arbitrary: acc ids)
  case Nil
  then show ?case by simp
next
  case (Cons w ws)
  show ?case
  proof (cases "kod w \<in> set ids")
    case False
    then have "stocks_loop ws acc ids = (Inr st, ids')" using Cons.prems by simp
    from Cons.IH [OF Cons.prems(1) this] have "ids' = filter (\<lambda>i. i \<notin> kod ` set ws) ids" .
    also have "\<dots> = filter (\<lambda>i. i \<notin> kod ` set (w # ws)) ids"
      using False by (intro filter_cong) auto
    finally show ?thesis .
  next
    case True
    then obtain n where n: "normalize_quantity (kolichestvo w) = Inr n"
      using Cons.prems by (cases "normalize_quantity (kolichestvo w)") auto
    have run: "stocks_loop ws (acc @ [\<lparr>offer_id = kod w, stock = n\<rparr>]) (remove1 (kod w) ids) = (Inr st, ids')"
      using Cons.prems True n by simp
    have d: "distinct (remove1 (kod w) ids)" using Cons.prems(1) by simp
    have "remove1 (kod w) ids = filter (\<lambda>i. i \<noteq> kod w) ids"
      using Cons.prems(1)
      by (auto simp: distinct_remove1_removeAll removeAll_filter_not_eq intro!: filter_cong)
    with Cons.IH [OF d run] have "ids' = filter (\<lambda>i. i \<notin> kod ` set ws) (filter (\<lambda>i. i \<noteq> kod w) ids)"
      by simp
    also have "\<dots> = filter (\<lambda>i. i \<notin> kod ` set (w # ws)) ids"
      by (auto intro!: filter_cong)
    finally show ?thesis .
  qed
qed

lemma prices_loop_no_match:
  "\<forall>w\<in>set F. kod w \<notin> set ids \<Longrightarrow> prices_loop F acc ids = (Inr acc, ids)"
  by (induction F arbitrary: acc) auto

text \<open>
  C10. Let \<open>offer_ids\<close> be free of duplicates. When \<open>create_stocks\<close> of seller.py has
  returned, the list holds exactly the identifiers that are the code of no feed record,
  and \<open>create_prices\<close> called with the same feed on that list, as \<open>main\<close> of seller.py
  does, returns the empty list.
\<close>

theorem create_prices_after_create_stocks:
  assumes "distinct offer_ids" and "create_stocks F offer_ids = (Inr st, ids')"
  shows "ids' = filter (\<lambda>i. i \<notin> kod ` set F) offer_ids
         \<and> create_prices F ids' = (Inr [], ids')"
proof -
  obtain m where loop: "stocks_loop F [] offer_ids = (Inr m, ids')"
    using assms(2) by (auto simp: create_stocks_def split: prod.splits sum.splits)
  have left: "ids' = filter (\<lambda>i. i \<notin> kod ` set F) offer_ids"
    using assms(1) loop by (rule stocks_loop_remaining)
  then have "\<forall>w\<in>set F. kod w \<notin> set ids'" by auto
  then have "create_prices F ids' = (Inr [], ids')"
    unfolding create_prices_def by (rule prices_loop_no_match)
  with left show ?thesis by simp
qed

theorem create_prices_after_create_stocks_witness:
  "[''C''] = filter (\<lambda>i. i \<notin> kod ` set [\<lparr>kod = ''A'', kolichestvo = ''>10'', tsena = ''24570.00''\<rparr>,
                                        \<lparr>kod = ''B'', kolichestvo = ''1'', tsena = ''100.00''\<rparr>])
              [''A'', ''B'', ''C'']
   \<and> create_prices [\<lparr>kod = ''A'', kolichestvo = ''>10'', tsena = ''24570.00''\<rparr>,
                    \<lparr>kod = ''B'', kolichestvo = ''1'', tsena = ''100.00''\<rparr>] [''C'']
       = (Inr [], [''C''])"
proof -
  have d: "distinct [''A'', ''B'', ''C'']" by simp
  have run: "create_stocks [\<lparr>kod = ''A'', kolichestvo = ''>10'', tsena = ''24570.00''\<rparr>,
                    \<lparr>kod = ''B'', kolichestvo = ''1'', tsena = ''100.00''\<rparr>] [''A'', ''B'', ''C'']
      = (Inr [\<lparr>offer_id = ''A'', stock = 100\<rparr>, \<lparr>offer_id = ''B'', stock = 0\<rparr>,
              \<lparr>offer_id = ''C'', stock = 0\<rparr>], [''C''])"
    by (simp add: create_stocks_def normalize_quantity_def)
  show ?thesis by (rule create_prices_after_create_stocks [OF d run])
qed

section \<open>Running the stock reconciliation twice\<close>

lemma to_market_date: "to_market wh d1 e = to_market wh d2 e \<Longrightarrow> d1 = d2"
  by (simp add: to_market_def market_entry_def)

text \<open>
  Two calls of \<open>create_stocks\<close> of market.py with the same feed, identifiers and
  warehouse, one second apart, return different payloads: the entries carry the time of
  the call.
\<close>

theorem market_create_stocks_clock_counterexample:
  "market_create_stocks ''2023-08-13T19:50:21Z'' [] [''A''] ''143645''
     \<noteq> market_create_stocks ''2023-08-13T19:50:22Z'' [] [''A''] ''143645''"
  by (simp add: market_create_stocks_def market_entry_def)

text \<open>
  C7, as amended. The output of \<open>create_stocks\<close> of market.py is the output of
  \<open>create_stocks\<close> of seller.py, a function of the feed and of the identifier list alone,
  with each entry wrapped with the warehouse and the clock reading of the call. So two
  calls of the market.py variant on the same feed, warehouse and fresh copies of the same
  identifier list give identical results exactly when they read the same second from the
  clock, or there is no identifier, or the call raises. The copy has to be fresh: called
  again on the list as a first call left it (duplicate-free at the start), seller.py's
  \<open>create_stocks\<close> returns only zero entries.
\<close>

theorem create_stocks_twice:
  "market_create_stocks d F offer_ids wh =
     (case create_stocks F offer_ids of
        (Inl e, ids') \<Rightarrow> (Inl e, ids')
      | (Inr st, ids') \<Rightarrow> (Inr (map (to_market wh d) st), ids'))
   \<and> (market_create_stocks d1 F offer_ids wh = market_create_stocks d2 F offer_ids wh
        \<longleftrightarrow> d1 = d2 \<or> offer_ids = [] \<or> (\<exists>e ids'. create_stocks F offer_ids = (Inl e, ids')))
   \<and> (distinct offer_ids \<and> create_stocks F offer_ids = (Inr st, ids') \<longrightarrow>
        create_stocks F ids' = (Inr (map (\<lambda>i. \<lparr>offer_id = i, stock = 0\<rparr>) ids'), ids'))"
proof (intro conjI)
  show "market_create_stocks d F offer_ids wh =
     (case create_stocks F offer_ids of
        (Inl e, ids') \<Rightarrow> (Inl e, ids')
      | (Inr st, ids') \<Rightarrow> (Inr (map (to_market wh d) st), ids'))"
    by (rule market_create_stocks_eq)
next
  show "market_create_stocks d1 F offer_ids wh = market_create_stocks d2 F offer_ids wh
        \<longleftrightarrow> d1 = d2 \<or> offer_ids = [] \<or> (\<exists>e ids'. create_stocks F offer_ids = (Inl e, ids'))"
  proof (cases "create_stocks F offer_ids")
    case (Pair r ids')
    show ?thesis
    proof (cases r)
      case (Inl e)
      then show ?thesis using Pair by (simp add: market_create_stocks_eq)
    next
      case (Inr st)
      have len: "length st = length offer_ids"
        using create_stocks_result(1) Pair Inr by simp
      have "map (to_market wh d1) st = map (to_market wh d2) st \<longleftrightarrow> d1 = d2 \<or> offer_ids = []"
      proof (cases st)
        case Nil
        then show ?thesis using len by simp
      next
        case (Cons e rest)
        then have "offer_ids \<noteq> []" using len by auto
        then show ?thesis using Cons to_market_date [of wh d1 e d2] by auto
      qed
      then show ?thesis using Pair Inr by (simp add: market_create_stocks_eq)
    qed
  qed
next
  show "distinct offer_ids \<and> create_stocks F offer_ids = (Inr st, ids') \<longrightarrow>
        create_stocks F ids' = (Inr (map (\<lambda>i. \<lparr>offer_id = i, stock = 0\<rparr>) ids'), ids')"
  proof (intro impI, elim conjE)
    assume d: "distinct offer_ids" and run: "create_stocks F offer_ids = (Inr st, ids')"
    obtain m where loop: "stocks_loop F [] offer_ids = (Inr m, ids')"
      using run by (auto simp: create_stocks_def split: prod.splits sum.splits)
    have "ids' = filter (\<lambda>i. i \<notin> kod ` set F) offer_ids"
      using d loop by (rule stocks_loop_remaining)
    then have none: "\<forall>w\<in>set F. kod w \<notin> set ids'" by auto
    have "stocks_loop F acc ids' = (Inr acc, ids')" for acc
      using none by (induction F arbitrary: acc) auto
    then show "create_stocks F ids' = (Inr (map (\<lambda>i. \<lparr>offer_id = i, stock = 0\<rparr>) ids'), ids')"
      by (simp add: create_stocks_def)
  qed
qed

theorem create_stocks_twice_witness:
  "create_stocks [\<lparr>kod = ''A'', kolichestvo = ''>10'', tsena = ''24570.00''\<rparr>] [''B'']
     = (Inr [\<lparr>offer_id = ''B'', stock = 0\<rparr>], [''B''])
   \<and> market_create_stocks ''2023-08-13T19:50:21Z''
        [\<lparr>kod = ''A'', kolichestvo = ''>10'', tsena = ''24570.00''\<rparr>] [''A'', ''B''] ''143645''
     \<noteq> market_create_stocks ''2023-08-13T19:50:22Z''
        [\<lparr>kod = ''A'', kolichestvo = ''>10'', tsena = ''24570.00''\<rparr>] [''A'', ''B''] ''143645''"
proof -
  let ?F = "[\<lparr>kod = ''A'', kolichestvo = ''>10'', tsena = ''24570.00''\<rparr>]"
  have run: "create_stocks ?F [''A'', ''B'']
      = (Inr [\<lparr>offer_id = ''A'', stock = 100\<rparr>, \<lparr>offer_id = ''B'', stock = 0\<rparr>], [''B''])"
    by (simp add: create_stocks_def normalize_quantity_def)
  have d: "distinct [''A'', ''B'']" by simp
  have "create_stocks ?F [''B''] = (Inr (map (\<lambda>i. \<lparr>offer_id = i, stock = 0\<rparr>) [''B'']), [''B''])"
    using create_stocks_twice [of _ ?F "[''A'', ''B'']" _ _ _ _ "[''B'']"] d run by blast
  moreover have "market_create_stocks ''2023-08-13T19:50:21Z'' ?F [''A'', ''B''] ''143645''
     \<noteq> market_create_stocks ''2023-08-13T19:50:22Z'' ?F [''A'', ''B''] ''143645''"
  proof -
    have iff: "market_create_stocks ''2023-08-13T19:50:21Z'' ?F [''A'', ''B''] ''143645''
        = market_create_stocks ''2023-08-13T19:50:22Z'' ?F [''A'', ''B''] ''143645''
      \<longleftrightarrow> ''2023-08-13T19:50:21Z'' = ''2023-08-13T19:50:22Z'' \<or> [''A'', ''B''] = []
          \<or> (\<exists>e ids'. create_stocks ?F [''A'', ''B''] = (Inl e, ids'))"
      using create_stocks_twice [of _ ?F "[''A'', ''B'']" "''143645''"
          "''2023-08-13T19:50:21Z''" "''2023-08-13T19:50:22Z''"]
      by blast
    have "\<not> (''2023-08-13T19:50:21Z'' = ''2023-08-13T19:50:22Z'' \<or> [''A'', ''B''] = []
          \<or> (\<exists>e ids'. create_stocks ?F [''A'', ''B''] = (Inl e, ids')))"
      by (simp add: run)
    then show ?thesis using iff by blast
  qed
  ultimately show ?thesis by simp
qed

section \<open>The counted pager\<close>

lemma product_pages_error:
  "g k c = Inl e \<Longrightarrow> product_pages g k c acc = Some (Inl e)"
  by (subst product_pages.simps) simp

lemma product_pages_stop:
  "g k c = Inr p \<Longrightarrow> page_total p = int (length (acc @ items p)) \<Longrightarrow>
   product_pages g k c acc = Some (Inr (acc @ items p))"
  by (subst product_pages.simps) simp

lemma product_pages_continue:
  "g k c = Inr p \<Longrightarrow> page_total p \<noteq> int (length (acc @ items p)) \<Longrightarrow>
   product_pages g k c acc = product_pages g (Suc k) (last_id p) (acc @ items p)"
  by (subst product_pages.simps) simp

lemma product_pages_run:
  assumes "ps \<noteq> []"
    and "\<forall>p\<in>set ps. page_total p = N"
    and "int (length (acc @ concat (map items ps))) = N"
    and "\<forall>j<length ps. g (k + j) (if j = 0 then c else last_id (ps ! (j - 1))) = Inr (ps ! j)"
  shows "product_pages g k c acc = Some (Inr (acc @ concat (map items ps)))"
  using assms
proof (induction ps arbitrary: k c acc)
  case Nil
  then show ?case by simp
next
  case (Cons p rest)
  have first: "g k c = Inr p" using Cons.prems(4) by force
  have tot: "page_total p = N" using Cons.prems(2) by simp
  show ?case
  proof (cases "N = int (length (acc @ items p))")
    case True
    then have "concat (map items rest) = []" using Cons.prems(3) by simp
    then show ?thesis
      using product_pages_stop [where g = g and k = k and c = c and p = p and acc = acc] first tot True
      by simp
  next
    case False
    then have more: "rest \<noteq> []" using Cons.prems(3) by auto
    have answers: "\<forall>j<length rest.
        g (Suc k + j) (if j = 0 then last_id p else last_id (rest ! (j - 1))) = Inr (rest ! j)"
    proof (intro allI impI)
      fix j
      assume "j < length rest"
      then have "g (k + Suc j) (if Suc j = 0 then c else last_id ((p # rest) ! (Suc j - 1)))
          = Inr ((p # rest) ! Suc j)"
        using Cons.prems(4) by (metis Suc_less_eq length_Cons)
      then show "g (Suc k + j) (if j = 0 then last_id p else last_id (rest ! (j - 1))) = Inr (rest ! j)"
        by (cases j) simp_all
    qed
    have "product_pages g (Suc k) (last_id p) (acc @ items p)
        = Some (Inr ((acc @ items p) @ concat (map items rest)))"
      using more Cons.prems(2,3) answers by (intro Cons.IH) simp_all
    then show ?thesis
      using product_pages_continue [where g = g and k = k and c = c and p = p and acc = acc] first tot False
      by simp
  qed
qed

text \<open>
  C8. One round of the pager: an answer whose reported total equals the number of items
  retrieved so far ends the loop with those items; an answer whose total differs from
  it, so also one whose total is greater, makes the pager request the next page with
  the cursor of the answer; a failed request
  ends the pager with the error and no items. Hence, when the marketplace answers the
  successive requests with the pages of a non-empty list, every page reports the total
  \<open>N\<close> and the pages hold \<open>N\<close> items together, \<open>get_offer_ids\<close> terminates and returns the
  \<open>offer_id\<close> of every item of these pages, in the order retrieved.
\<close>

theorem get_offer_ids_counted:
  "(g k c = Inr p \<and> page_total p = int (length (acc @ items p)) \<longrightarrow>
      product_pages g k c acc = Some (Inr (acc @ items p)))
   \<and> (g k c = Inr p \<and> page_total p \<noteq> int (length (acc @ items p)) \<longrightarrow>
      product_pages g k c acc = product_pages g (Suc k) (last_id p) (acc @ items p))
   \<and> (g k c = Inl e \<longrightarrow> product_pages g k c acc = Some (Inl e))
   \<and> (pages \<noteq> [] \<and> (\<forall>p\<in>set pages. page_total p = N)
        \<and> int (length (concat (map items pages))) = N
        \<and> (\<forall>j<length pages.
              g j (if j = 0 then [] else last_id (pages ! (j - 1))) = Inr (pages ! j))
      \<longrightarrow> get_offer_ids g = Some (Inr (map product_offer_id (concat (map items pages)))))"
proof (intro conjI impI)
  assume "g k c = Inr p \<and> page_total p = int (length (acc @ items p))"
  then show "product_pages g k c acc = Some (Inr (acc @ items p))"
    using product_pages_stop [where g = g and k = k and c = c and p = p and acc = acc] by blast
next
  assume "g k c = Inr p \<and> page_total p \<noteq> int (length (acc @ items p))"
  then have "g k c = Inr p" "page_total p \<noteq> int (length (acc @ items p))" by auto
  then show "product_pages g k c acc = product_pages g (Suc k) (last_id p) (acc @ items p)"
    by (rule product_pages_continue)
next
  assume "g k c = Inl e"
  then show "product_pages g k c acc = Some (Inl e)" by (rule product_pages_error)
next
  assume h: "pages \<noteq> [] \<and> (\<forall>p\<in>set pages. page_total p = N)
        \<and> int (length (concat (map items pages))) = N
        \<and> (\<forall>j<length pages.
              g j (if j = 0 then [] else last_id (pages ! (j - 1))) = Inr (pages ! j))"
  have "product_pages g 0 [] [] = Some (Inr ([] @ concat (map items pages)))"
    using h by (intro product_pages_run [where N = N]) simp_all
  then show "get_offer_ids g = Some (Inr (map product_offer_id (concat (map items pages))))"
    by (simp add: get_offer_ids_def)
qed

theorem get_offer_ids_counted_witness:
  "get_offer_ids
     (\<lambda>k cursor.
        if k = 0 \<and> cursor = [] then
          Inr \<lparr>items = [\<lparr>product_id = 223681945, product_offer_id = ''136748''\<rparr>],
               page_total = 2, last_id = ''bnVsbA==''\<rparr>
        else if k = 1 \<and> cursor = ''bnVsbA=='' then
          Inr \<lparr>items = [\<lparr>product_id = 223681946, product_offer_id = ''168448''\<rparr>],
               page_total = 2, last_id = []\<rparr>
        else Inl HTTPError)
   = Some (Inr [''136748'', ''168448''])"
proof -
  let ?p1 = "\<lparr>items = [\<lparr>product_id = 223681945, product_offer_id = ''136748''\<rparr>],
               page_total = 2, last_id = ''bnVsbA==''\<rparr>"
  let ?p2 = "\<lparr>items = [\<lparr>product_id = 223681946, product_offer_id = ''168448''\<rparr>],
               page_total = 2, last_id = []\<rparr>"
  let ?g = "\<lambda>k cursor.
        if k = (0::nat) \<and> cursor = [] then Inr ?p1
        else if k = 1 \<and> cursor = ''bnVsbA=='' then Inr ?p2
        else Inl HTTPError"
  have two: "j < length [?p1, ?p2] \<longleftrightarrow> j = 0 \<or> j = 1" for j by auto
  have h: "[?p1, ?p2] \<noteq> [] \<and> (\<forall>p\<in>set [?p1, ?p2]. page_total p = 2)
        \<and> int (length (concat (map items [?p1, ?p2]))) = 2
        \<and> (\<forall>j<length [?p1, ?p2].
              ?g j (if j = 0 then [] else last_id ([?p1, ?p2] ! (j - 1))) = Inr ([?p1, ?p2] ! j))"
    unfolding two by simp
  have "get_offer_ids ?g = Some (Inr (map product_offer_id (concat (map items [?p1, ?p2]))))"
    using get_offer_ids_counted [where g = ?g and pages = "[?p1, ?p2]" and N = 2] h by blast
  then show ?thesis by simp
qed

section \<open>The two campaigns of market.py\<close>

lemma submit_stocks_events:
  "set (snd (submit_stocks env c bs tr)) \<subseteq> set tr \<union> range (UpdateStocks c)"
proof (induction bs arbitrary: tr)
  case Nil
  show ?case by simp
next
  case (Cons b bs)
  show ?case
  proof (cases "update_stocks_of env tr c b")
    case (Inl e)
    then show ?thesis by auto
  next
    case (Inr u)
    then show ?thesis using Cons.IH [of "tr @ [UpdateStocks c b]"] by auto
  qed
qed

lemma sync_campaign_events:
  "set (snd (sync_campaign env F c wh tr)) \<subseteq> set tr \<union> {GetOfferIds c} \<union> range (UpdateStocks c)"
proof -
  have "set (snd (submit_stocks env c bs (tr @ [GetOfferIds c])))
      \<subseteq> set tr \<union> {GetOfferIds c} \<union> range (UpdateStocks c)" for bs
    using submit_stocks_events [of env c bs "tr @ [GetOfferIds c]"] by auto
  then show ?thesis
    by (auto simp: sync_campaign_def Let_def split: sum.splits)
qed

lemma sync_campaign_starts:
  "GetOfferIds c \<in> set (snd (sync_campaign env F c wh tr))"
proof -
  have "set tr \<subseteq> set (snd (submit_stocks env c bs tr))" for bs tr
  proof (induction bs arbitrary: tr)
    case Nil
    show ?case by simp
  next
    case (Cons b bs)
    show ?case using Cons.IH [of "tr @ [UpdateStocks c b]"] by (auto split: sum.splits)
  qed
  from this [of "tr @ [GetOfferIds c]"]
  have "GetOfferIds c \<in> set (snd (submit_stocks env c bs (tr @ [GetOfferIds c])))" for bs
    by (simp add: subset_iff)
  then show ?thesis
    by (auto simp: sync_campaign_def Let_def split: sum.splits)
qed

text \<open>
  The marketplace answers the first stock update of the first campaign with a read
  timeout: \<open>main\<close> prints the diagnostic and ends, and nothing is requested for the second
  campaign.
\<close>

theorem market_main_stops_counterexample:
  "market_main
     \<lparr>offer_ids_of = (\<lambda>tr c. Inr [''A'']),
      update_stocks_of = (\<lambda>tr c b. if c = ''FBS'' then Inl ReadTimeout else Inr ()),
      utcnow = (\<lambda>tr. ''2023-08-13T19:50:21Z'')\<rparr>
     [] ''FBS'' ''DBS'' ''143645'' ''143646''
   = [GetOfferIds ''FBS'',
      UpdateStocks ''FBS'' [market_entry ''143645'' ''2023-08-13T19:50:21Z'' ''A'' 0],
      Print TimeoutMsg]"
  by (simp add: market_main_def sync_campaign_def market_create_stocks_def divide_list_def
      range_from.simps report_def)

text \<open>
  C9, as amended. \<open>main\<close> of market.py holds both campaigns in one \<open>try\<close> block. When the
  synchronisation of the first campaign raises, \<open>main\<close> does what it did for that campaign
  up to there (batches already sent stay sent), prints one diagnostic and ends: if the
  second campaign has another identifier, nothing is requested for it. The second
  campaign is attempted exactly when the first one ended without an exception.
\<close>

theorem market_main_first_failure:
  "(fst (sync_campaign env F fbs wh_fbs []) = Inl e \<longrightarrow>
      market_main env F fbs dbs wh_fbs wh_dbs
        = snd (sync_campaign env F fbs wh_fbs []) @ [Print (report e)]
      \<and> (fbs \<noteq> dbs \<longrightarrow>
           GetOfferIds dbs \<notin> set (market_main env F fbs dbs wh_fbs wh_dbs)
           \<and> (\<forall>b. UpdateStocks dbs b \<notin> set (market_main env F fbs dbs wh_fbs wh_dbs))))
   \<and> (fst (sync_campaign env F fbs wh_fbs []) = Inr () \<longrightarrow>
      GetOfferIds dbs \<in> set (market_main env F fbs dbs wh_fbs wh_dbs))"
proof (intro conjI impI)
  assume fail: "fst (sync_campaign env F fbs wh_fbs []) = Inl e"
  then show run: "market_main env F fbs dbs wh_fbs wh_dbs
        = snd (sync_campaign env F fbs wh_fbs []) @ [Print (report e)]"
    by (cases "sync_campaign env F fbs wh_fbs []") (simp add: market_main_def)
  assume other: "fbs \<noteq> dbs"
  have ev: "set (market_main env F fbs dbs wh_fbs wh_dbs)
      \<subseteq> {GetOfferIds fbs} \<union> range (UpdateStocks fbs) \<union> {Print (report e)}"
    using sync_campaign_events [of env F fbs wh_fbs "[]"] by (auto simp: run)
  show "GetOfferIds dbs \<notin> set (market_main env F fbs dbs wh_fbs wh_dbs)"
    using ev other by auto
  show "\<forall>b. UpdateStocks dbs b \<notin> set (market_main env F fbs dbs wh_fbs wh_dbs)"
    using ev other by auto
next
  assume ok: "fst (sync_campaign env F fbs wh_fbs []) = Inr ()"
  obtain tr where first: "sync_campaign env F fbs wh_fbs [] = (Inr (), tr)"
    using ok by (cases "sync_campaign env F fbs wh_fbs []") auto
  have "GetOfferIds dbs \<in> set (snd (sync_campaign env F dbs wh_dbs tr))"
    by (rule sync_campaign_starts)
  then show "GetOfferIds dbs \<in> set (market_main env F fbs dbs wh_fbs wh_dbs)"
    by (cases "sync_campaign env F dbs wh_dbs tr")
      (auto simp: market_main_def first split: sum.splits)
qed

theorem market_main_first_failure_witness:
  "GetOfferIds ''DBS'' \<notin> set (market_main
     \<lparr>offer_ids_of = (\<lambda>tr c. if c = ''FBS'' then Inl HTTPError else Inr [''A'']),
      update_stocks_of = (\<lambda>tr c b. Inr ()),
      utcnow = (\<lambda>tr. ''2023-08-13T19:50:21Z'')\<rparr>
     [] ''FBS'' ''DBS'' ''143645'' ''143646'')
   \<and> GetOfferIds ''DBS'' \<in> set (market_main
     \<lparr>offer_ids_of = (\<lambda>tr c. Inr [''A'']),
      update_stocks_of = (\<lambda>tr c b. Inr ()),
      utcnow = (\<lambda>tr. ''2023-08-13T19:50:21Z'')\<rparr>
     [] ''FBS'' ''DBS'' ''143645'' ''143646'')"
proof -
  let ?down = "\<lparr>offer_ids_of = (\<lambda>tr c. if c = ''FBS'' then Inl HTTPError else Inr [''A'']),
      update_stocks_of = (\<lambda>tr c b. Inr ()),
      utcnow = (\<lambda>tr. ''2023-08-13T19:50:21Z'')\<rparr>"
  let ?up = "\<lparr>offer_ids_of = (\<lambda>tr c. Inr [''A'']),
      update_stocks_of = (\<lambda>tr c b. Inr ()),
      utcnow = (\<lambda>tr. ''2023-08-13T19:50:21Z'')\<rparr>"
  have fail: "fst (sync_campaign ?down [] ''FBS'' ''143645'' []) = Inl HTTPError"
    by (simp add: sync_campaign_def)
  have ok: "fst (sync_campaign ?up [] ''FBS'' ''143645'' []) = Inr ()"
    by (simp add: sync_campaign_def market_create_stocks_def divide_list_def range_from.simps)
  have ne: "''FBS'' \<noteq> ''DBS''" by simp
  have "GetOfferIds ''DBS'' \<notin> set (market_main ?down [] ''FBS'' ''DBS'' ''143645'' ''143646'')"
    using market_main_first_failure [of ?down "[]" "''FBS''" "''143645''" HTTPError "''DBS''" "''143646''"]
      fail ne by blast
  moreover have "GetOfferIds ''DBS'' \<in> set (market_main ?up [] ''FBS'' ''DBS'' ''143645'' ''143646'')"
    using market_main_first_failure [of ?up "[]" "''FBS''" "''143645''" _ "''DBS''" "''143646''"]
      ok by blast
  ultimately show ?thesis by blast
qed

end
